theory Spec2Isabelle
  imports Complex_Main
begin

section \<open>The quadtree of \<open>quadtree.py\<close>\<close>

text \<open>
  \<open>quadtree.py\<close> holds one class, \<open>QuadTree\<close>. An instance has two fields: \<open>quads\<close>, a
  dictionary from a depth to the list of bounding boxes at that depth, and \<open>depth\<close>. The
  constructor fills the dictionary by a depth-first recursion that appends to the lists in
  place; three static helpers compute powers of four through a floating-point logarithm.

  The bounding boxes come from the module \<open>boundingbox\<close>, which is not part of the sources.
  The class only ever calls \<open>bbox.compute_quads()\<close> on a box, so the embedding takes that
  method as a parameter \<open>compute_quads :: 'b \<Rightarrow> 'b list\<close> over an arbitrary type of boxes.
\<close>

subsection \<open>Errors and state\<close>

text \<open>
  \<open>KeyError k\<close> is raised by \<open>self.quads[k]\<close> when \<open>k\<close> is not a key; \<open>ValueError\<close> is raised
  by \<open>math.log\<close> on an argument that is not positive.
\<close>

datatype error = KeyError int | ValueError

record 'b QuadTree =
  quads :: "int \<rightharpoonup> 'b list"
  depth :: int

text \<open>
  A \<open>for\<close> loop over a list whose body may raise or may fail to return: the first error
  ends the loop, as the exception does. \<open>None\<close> stands for a body that did not return.
\<close>

fun for_each :: "('a \<Rightarrow> 's \<Rightarrow> (error + 's) option) \<Rightarrow> 'a list \<Rightarrow> 's \<Rightarrow> (error + 's) option" where
  "for_each body [] s = Some (Inr s)"
| "for_each body (x # xs) s =
     (case body x s of
        None \<Rightarrow> None
      | Some (Inl e) \<Rightarrow> Some (Inl e)
      | Some (Inr s') \<Rightarrow> for_each body xs s')"

subsection \<open>\<open>QuadTree.recurse\<close>\<close>

text \<open>
  \<^verbatim>\<open>
  def recurse(self, bbox, depth):
      if self.depth == depth:
          return
      for quad in bbox.compute_quads():
          self.quads[depth].append(quad)
          self.recurse(quad, depth + 1)
  \<close>
  The recursion stops only when the running depth meets \<open>self.depth\<close> exactly, so it is not
  bounded by its arguments alone. The first argument of the model is the number of nested
  calls allowed; \<open>None\<close> is returned when they are used up.
\<close>

primrec recurse ::
  "('b \<Rightarrow> 'b list) \<Rightarrow> nat \<Rightarrow> 'b \<Rightarrow> int \<Rightarrow> 'b QuadTree \<Rightarrow> (error + 'b QuadTree) option" where
  "recurse compute_quads 0 bbox d self = None"
| "recurse compute_quads (Suc fuel) bbox d self =
     (if depth self = d then Some (Inr self)
      else for_each
             (\<lambda>quad self.
                case quads self d of
                  None \<Rightarrow> Some (Inl (KeyError d))
                | Some xs \<Rightarrow>
                    recurse compute_quads fuel quad (d + 1)
                      (self\<lparr>quads := (quads self)(d \<mapsto> xs @ [quad])\<rparr>))
             (compute_quads bbox) self)"

subsection \<open>\<open>QuadTree.__init__\<close> and \<open>QuadTree.quadrants\<close>\<close>

text \<open>
  \<^verbatim>\<open>
  def __init__(self, bbox, depth):
      self.quads = {}
      self.depth = depth
      for x in range(depth):
          self.quads[x] = []
      self.quads[0] = [bbox]
      self.recurse(bbox, 1)
  \<close>
  \<open>range(depth)\<close> is the list \<open>[0..depth - 1]\<close>, empty when \<open>depth \<le> 0\<close>.
\<close>

definition QuadTree_init ::
  "('b \<Rightarrow> 'b list) \<Rightarrow> nat \<Rightarrow> 'b \<Rightarrow> int \<Rightarrow> (error + 'b QuadTree) option" where
  "QuadTree_init compute_quads fuel bbox dp =
     (let self = \<lparr>quads = Map.empty, depth = dp\<rparr>;
          self = fold (\<lambda>x s. s\<lparr>quads := (quads s)(x \<mapsto> [])\<rparr>) [0..dp - 1] self;
          self = self\<lparr>quads := (quads self)(0 \<mapsto> [bbox])\<rparr>
      in recurse compute_quads fuel bbox 1 self)"

definition quadrants :: "'b QuadTree \<Rightarrow> (int \<rightharpoonup> 'b list)" where
  "quadrants self = quads self"

subsection \<open>Boxes for running the construction\<close>

text \<open>
  Modelled from the spec: the module \<open>boundingbox\<close> is missing from the sources. The
  specification describes a box as an axis-aligned rectangle with four scalar bounds,
  built as \<open>BoundingBox(2, 9, 1, 7)\<close> for \<open>x\<close> in \<open>2..9\<close> and \<open>y\<close> in \<open>1..7\<close>, that splits
  into four equal rectangles tiling it. The order of the four is left to the module; the
  one below is row by row. No theorem about \<open>QuadTree\<close> depends on this choice: the
  theorems hold for every splitting function, and these boxes only serve to run the
  construction on concrete inputs.
\<close>

datatype BoundingBox = BoundingBox rat rat rat rat

fun BoundingBox_compute_quads :: "BoundingBox \<Rightarrow> BoundingBox list" where
  "BoundingBox_compute_quads (BoundingBox x0 x1 y0 y1) =
     (let xm = (x0 + x1) / 2; ym = (y0 + y1) / 2
      in [BoundingBox x0 xm y0 ym, BoundingBox xm x1 y0 ym,
          BoundingBox x0 xm ym y1, BoundingBox xm x1 ym y1])"

fun BoundingBox_area :: "BoundingBox \<Rightarrow> rat" where
  "BoundingBox_area (BoundingBox x0 x1 y0 y1) = (x1 - x0) * (y1 - y0)"

text \<open>
  Two collaborators that break the contract of four sub-boxes: one yields no sub-box, the
  other yields three. Boxes are plain numbers here.
\<close>

definition no_quads :: "nat \<Rightarrow> nat list" where
  "no_quads b = []"


subsection \<open>The boxes below a box\<close>

text \<open>
  \<open>descendants cq j b\<close> lists the boxes \<open>j\<close> splits below \<open>b\<close> in the order in which the
  depth-first recursion meets them: the descendants of the first sub-box, then those of
  the second, and so on. It is used to state what the recursion appends to each level.
\<close>

primrec descendants :: "('b \<Rightarrow> 'b list) \<Rightarrow> nat \<Rightarrow> 'b \<Rightarrow> 'b list" where
  "descendants cq 0 b = [b]"
| "descendants cq (Suc j) b = concat (map (descendants cq j) (cq b))"

subsection \<open>The arithmetic helpers\<close>

text \<open>
  \<^verbatim>\<open>
  def at_least(size): return 4 ** int(math.ceil(math.log(size, 4)))
  def at_most(size):  return 4 ** int(math.floor(math.log(size, 4)))
  def level(size):    return int(math.ceil(math.log(size, 4)))
  \<close>
  \<open>math.log(size, 4)\<close> works on C doubles. For an integer \<open>size\<close> it raises \<open>ValueError\<close>
  unless \<open>size\<close> is positive, converts \<open>size\<close> to a double, takes the C library's logarithm
  of that double and of \<open>4.0\<close>, and divides. What the C library returns is not part of this
  repository, so the logarithm is a parameter \<open>log4\<close> of the helpers: \<open>log4 x\<close> is the
  quotient computed for the double of value \<open>x\<close>. The conversion of the integer is part of
  Python and is written out: the nearest integer with 53 significant bits, a tie going to
  the even one; \<open>bit_length\<close> is the number of bits of a positive integer. An integer too large for a double takes another path in \<open>math.log\<close>, which
  works on the integer's mantissa and exponent; \<open>log4\<close> is applied to the integer itself
  there. The argument \<open>size\<close> of the source is written \<open>sz\<close>.
\<close>

function bit_length :: "int \<Rightarrow> nat" where
  "bit_length n = (if n \<le> 0 then 0 else Suc (bit_length (n div 2)))"
  by pat_completeness auto
termination
  by (relation "measure nat") auto

declare bit_length.simps [simp del]

text \<open>The double nearest to a positive integer; \<open>None\<close> when that is beyond the doubles.\<close>

definition PyLong_AsDouble :: "int \<Rightarrow> int option" where
  "PyLong_AsDouble n =
     (let b = bit_length n in
      if b \<le> 53 then Some n
      else
        let sh = b - 53;
            q = n div 2 ^ sh;
            r = n mod 2 ^ sh;
            q' = (if 2 ^ sh < 2 * r \<or> (2 * r = 2 ^ sh \<and> odd q) then q + 1 else q);
            x = q' * 2 ^ sh
        in if 2 ^ 1024 \<le> x then None else Some x)"

definition math_log :: "(int \<Rightarrow> real) \<Rightarrow> int \<Rightarrow> error + real" where
  "math_log log4 sz =
     (if sz \<le> 0 then Inl ValueError
      else Inr (log4 (case PyLong_AsDouble sz of Some x \<Rightarrow> x | None \<Rightarrow> sz)))"

text \<open>
  \<open>4 ** e\<close> is an integer when \<open>e\<close> is not negative and a float otherwise; the float is
  exact down to \<open>4 ** -537\<close>, the smallest positive double, and zero below.
\<close>

datatype number = PyInt int | PyFloat rat

definition pow4 :: "int \<Rightarrow> number" where
  "pow4 e =
     (if 0 \<le> e then PyInt (4 ^ nat e)
      else PyFloat (if - 537 \<le> e then 1 / 4 ^ nat (- e) else 0))"

definition at_least :: "(int \<Rightarrow> real) \<Rightarrow> int \<Rightarrow> error + number" where
  "at_least log4 sz =
     (case math_log log4 sz of Inl e \<Rightarrow> Inl e | Inr x \<Rightarrow> Inr (pow4 \<lceil>x\<rceil>))"

definition at_most :: "(int \<Rightarrow> real) \<Rightarrow> int \<Rightarrow> error + number" where
  "at_most log4 sz =
     (case math_log log4 sz of Inl e \<Rightarrow> Inl e | Inr x \<Rightarrow> Inr (pow4 \<lfloor>x\<rfloor>))"

definition level :: "(int \<Rightarrow> real) \<Rightarrow> int \<Rightarrow> error + int" where
  "level log4 sz =
     (case math_log log4 sz of Inl e \<Rightarrow> Inl e | Inr x \<Rightarrow> Inr \<lceil>x\<rceil>)"

text \<open>
  The logarithm without any rounding error, the most favourable value of the parameter.
\<close>

definition exact_log4 :: "int \<Rightarrow> real" where
  "exact_log4 x = log 4 (real_of_int x)"

text \<open>
  A logarithm that exceeds the exact one by \<open>2 ^ -48\<close>, the distance between two
  neighbouring doubles from \<open>16\<close> to \<open>32\<close>: the least excess a computed logarithm of that
  size can have.
\<close>

definition high_log4 :: "int \<Rightarrow> real" where
  "high_log4 x = exact_log4 x + 1 / 2 ^ 48"

section \<open>What the recursion builds\<close>

subsection \<open>Descendants, level by level\<close>

lemma concat_map_concat:
  "concat (map f (concat xss)) = concat (map (\<lambda>xs. concat (map f xs)) xss)"
  by (induction xss) simp_all

text \<open>
  The boxes \<open>j + 1\<close> splits below \<open>b\<close> are the sub-boxes of the boxes \<open>j\<close> splits below \<open>b\<close>,
  parent after parent.
\<close>

lemma descendants_Suc_level:
  "descendants cq (Suc j) b = concat (map cq (descendants cq j b))"
proof (induction j arbitrary: b)
  case 0
  have "concat (map (descendants cq 0) xs) = xs" for xs
    by (induction xs) simp_all
  then show ?case by simp
next
  case (Suc j)
  have "descendants cq (Suc (Suc j)) b = concat (map (descendants cq (Suc j)) (cq b))"
    by simp
  also have "\<dots> = concat (map (\<lambda>c. concat (map cq (descendants cq j c))) (cq b))"
    using Suc.IH by presburger
  also have "\<dots> = concat (map cq (concat (map (descendants cq j) (cq b))))"
    by (simp add: concat_map_concat comp_def)
  finally show ?case by simp
qed

lemma length_descendants:
  assumes "\<forall>b. length (cq b) = 4"
  shows "length (descendants cq j b) = 4 ^ j"
proof (induction j)
  case 0
  show ?case by simp
next
  case (Suc j)
  have "length (descendants cq (Suc j) b) = sum_list (map (\<lambda>p. length (cq p)) (descendants cq j b))"
    by (simp only: descendants_Suc_level length_concat map_map comp_def)
  also have "\<dots> = sum_list (map (\<lambda>p. 4) (descendants cq j b))"
    using assms by simp
  also have "\<dots> = 4 * 4 ^ j"
    using Suc.IH by (simp add: sum_list_triv)
  finally show ?case by simp
qed

lemma sum_list_map_concat:
  "sum_list (map f (concat xss)) = sum_list (map (\<lambda>xs. sum_list (map f xs)) xss)"
  by (induction xss) simp_all

lemma area_descendants:
  fixes area :: "'b \<Rightarrow> 'a::monoid_add"
  assumes "\<forall>b. sum_list (map area (cq b)) = area b"
  shows "sum_list (map area (descendants cq j b)) = area b"
proof (induction j arbitrary: b)
  case 0
  show ?case by simp
next
  case (Suc j)
  have "sum_list (map area (descendants cq (Suc j) b)) =
        sum_list (map (\<lambda>c. sum_list (map area (descendants cq j c))) (cq b))"
    by (simp add: sum_list_map_concat comp_def)
  also have "\<dots> = sum_list (map area (cq b))"
    using Suc.IH by simp
  finally show ?case using assms by simp
qed

subsection \<open>The initial dictionary\<close>

lemma fold_init_quads:
  "quads (fold (\<lambda>x s. s\<lparr>quads := (quads s)(x \<mapsto> [])\<rparr>) xs s) k =
     (if k \<in> set xs then Some [] else quads s k)"
  by (induction xs arbitrary: s) auto

lemma fold_init_depth:
  "depth (fold (\<lambda>x s. s\<lparr>quads := (quads s)(x \<mapsto> [])\<rparr>) xs s) = depth s"
  by (induction xs arbitrary: s) auto

subsection \<open>The recursion\<close>

text \<open>
  Started at depth \<open>d\<close>, not beyond \<open>self.depth\<close>, on a dictionary that has every key from
  \<open>d\<close> up to \<open>self.depth - 1\<close>, and allowed more nested calls than there are levels left,
  the recursion returns without an error. It appends to each of these levels \<open>k\<close> the boxes
  \<open>k - d + 1\<close> splits below the box it was given, and leaves the rest of the dictionary as
  it was.
\<close>

lemma recurse_levels:
  fixes self :: "'b QuadTree"
  assumes "d \<le> depth self"
    and "\<forall>k. d \<le> k \<and> k < depth self \<longrightarrow> quads self k \<noteq> None"
    and "nat (depth self - d) < fuel"
  shows "\<exists>self'. recurse cq fuel b d self = Some (Inr self') \<and> depth self' = depth self \<and>
     (\<forall>k. quads self' k =
        (if d \<le> k \<and> k < depth self
         then Some (the (quads self k) @ descendants cq (nat (k - d + 1)) b)
         else quads self k))"
  using assms
proof (induction fuel arbitrary: b d self)
  case 0
  then show ?case by simp
next
  case (Suc fuel)
  show ?case
  proof (cases "depth self = d")
    case True
    then show ?thesis by auto
  next
    case False
    with Suc.prems have lt: "d < depth self" by simp
    define body where "body = (\<lambda>quad (self :: 'b QuadTree).
                case quads self d of
                  None \<Rightarrow> Some (Inl (KeyError d))
                | Some xs \<Rightarrow>
                    recurse cq fuel quad (d + 1)
                      (self\<lparr>quads := (quads self)(d \<mapsto> xs @ [quad])\<rparr>))"
    have loop: "\<exists>self'. for_each body qs s = Some (Inr self') \<and> depth self' = depth s \<and>
       (\<forall>k. quads self' k =
          (if d \<le> k \<and> k < depth s
           then Some (the (quads s k) @ concat (map (descendants cq (nat (k - d))) qs))
           else quads s k))"
      if "depth s = depth self" "\<forall>k. d \<le> k \<and> k < depth s \<longrightarrow> quads s k \<noteq> None"
      for qs s
      using that
    proof (induction qs arbitrary: s)
      case Nil
      then show ?case by auto
    next
      case (Cons q qs)
      from Cons.prems lt obtain xs where xs: "quads s d = Some xs" by auto
      let ?s1 = "s\<lparr>quads := (quads s)(d \<mapsto> xs @ [q])\<rparr>"
      have "\<exists>s2. recurse cq fuel q (d + 1) ?s1 = Some (Inr s2) \<and> depth s2 = depth ?s1 \<and>
        (\<forall>k. quads s2 k =
          (if d + 1 \<le> k \<and> k < depth ?s1
           then Some (the (quads ?s1 k) @ descendants cq (nat (k - (d + 1) + 1)) q)
           else quads ?s1 k))"
        using Cons.prems lt Suc.prems by (intro Suc.IH) auto
      then obtain s2 where s2: "recurse cq fuel q (d + 1) ?s1 = Some (Inr s2)"
        "depth s2 = depth s"
        "\<And>k. quads s2 k =
          (if d + 1 \<le> k \<and> k < depth s
           then Some (the (quads ?s1 k) @ descendants cq (nat (k - d)) q)
           else quads ?s1 k)"
        by auto
      have s2k: "quads s2 k = Some (the (quads s k) @ descendants cq (nat (k - d)) q)"
        if "d \<le> k" "k < depth s" for k
        using that s2(3)[of k] xs Cons.prems by (cases "k = d") auto
      have s2o: "quads s2 k = quads s k" if "\<not> (d \<le> k \<and> k < depth s)" for k
        using that s2(3)[of k] lt Cons.prems by auto
      have "\<exists>self'. for_each body qs s2 = Some (Inr self') \<and> depth self' = depth s2 \<and>
       (\<forall>k. quads self' k =
          (if d \<le> k \<and> k < depth s2
           then Some (the (quads s2 k) @ concat (map (descendants cq (nat (k - d))) qs))
           else quads s2 k))"
        using s2(2) s2k Cons.prems by (intro Cons.IH) auto
      then obtain s3 where s3: "for_each body qs s2 = Some (Inr s3)" "depth s3 = depth s"
        "\<And>k. quads s3 k =
          (if d \<le> k \<and> k < depth s
           then Some (the (quads s2 k) @ concat (map (descendants cq (nat (k - d))) qs))
           else quads s2 k)"
        using s2(2) by auto
      have "for_each body (q # qs) s = Some (Inr s3)"
        using xs s2(1) s3(1) by (simp add: body_def)
      moreover have "quads s3 k =
          (if d \<le> k \<and> k < depth s
           then Some (the (quads s k) @ concat (map (descendants cq (nat (k - d))) (q # qs)))
           else quads s k)" for k
        using s3(3)[of k] s2k[of k] s2o[of k] by auto
      ultimately show ?case using s3(2) by blast
    qed
    have "\<exists>self'. for_each body (cq b) self = Some (Inr self') \<and> depth self' = depth self \<and>
       (\<forall>k. quads self' k =
          (if d \<le> k \<and> k < depth self
           then Some (the (quads self k) @ concat (map (descendants cq (nat (k - d))) (cq b)))
           else quads self k))"
      using Suc.prems by (intro loop) auto
    moreover have "concat (map (descendants cq (nat (k - d))) (cq b)) =
        descendants cq (nat (k - d + 1)) b" if "d \<le> k" for k
    proof -
      have "nat (k - d + 1) = Suc (nat (k - d))" using that by simp
      then show ?thesis by simp
    qed
    ultimately show ?thesis using False by (auto simp: body_def)
  qed
qed

subsection \<open>The constructor\<close>

text \<open>
  For a depth of at least one and as many nested calls allowed as the depth, the
  constructor returns an instance whose dictionary has the keys \<open>0\<close> to \<open>depth - 1\<close>; the
  list at key \<open>k\<close> holds the boxes \<open>k\<close> splits below the root box.
\<close>

lemma QuadTree_init_levels:
  fixes bbox :: 'b
  assumes "1 \<le> dp" and "nat dp \<le> fuel"
  shows "\<exists>self. QuadTree_init cq fuel bbox dp = Some (Inr self) \<and> depth self = dp \<and>
     (\<forall>k. quadrants self k =
        (if 0 \<le> k \<and> k < dp then Some (descendants cq (nat k) bbox) else None))"
proof -
  define s1 where
    "s1 = fold (\<lambda>x s. s\<lparr>quads := (quads s)(x \<mapsto> [])\<rparr>) [0..dp - 1]
            \<lparr>quads = (Map.empty :: int \<rightharpoonup> 'b list), depth = dp\<rparr>"
  define s0 where "s0 = s1\<lparr>quads := (quads s1)(0 \<mapsto> [bbox])\<rparr>"
  have init: "QuadTree_init cq fuel bbox dp = recurse cq fuel bbox 1 s0"
    by (simp add: QuadTree_init_def s0_def s1_def Let_def)
  have d0: "depth s0 = dp"
    by (simp add: s0_def s1_def fold_init_depth)
  have q0: "quads s0 k =
      (if k = 0 then Some [bbox] else if 0 \<le> k \<and> k < dp then Some [] else None)" for k
    by (auto simp add: s0_def s1_def fold_init_quads)
  have "\<exists>self'. recurse cq fuel bbox 1 s0 = Some (Inr self') \<and> depth self' = depth s0 \<and>
     (\<forall>k. quads self' k =
        (if 1 \<le> k \<and> k < depth s0
         then Some (the (quads s0 k) @ descendants cq (nat (k - 1 + 1)) bbox)
         else quads s0 k))"
    using assms d0 q0 by (intro recurse_levels) auto
  then obtain self' where r: "recurse cq fuel bbox 1 s0 = Some (Inr self')"
    "depth self' = dp"
    "\<And>k. quads self' k =
        (if 1 \<le> k \<and> k < dp
         then Some (the (quads s0 k) @ descendants cq (nat k) bbox)
         else quads s0 k)"
    using d0 by auto
  have "quadrants self' k =
      (if 0 \<le> k \<and> k < dp then Some (descendants cq (nat k) bbox) else None)" for k
    using r(3)[of k] q0[of k] assms(1) by (auto simp: quadrants_def)
  with init r(1,2) show ?thesis by auto
qed

subsection \<open>The boxes used as concrete inputs\<close>

lemma length_BoundingBox_compute_quads: "length (BoundingBox_compute_quads b) = 4"
  by (cases b) (simp add: Let_def)

lemma area_BoundingBox_compute_quads:
  "sum_list (map BoundingBox_area (BoundingBox_compute_quads b)) = BoundingBox_area b"
  by (cases b) (simp add: Let_def field_simps)

section \<open>The registry returned by \<open>quadrants\<close>\<close>

text \<open>
  Claim C1. For a splitting method that yields four sub-boxes for every box, and a depth
  of at least one, the constructor returns (given as many nested calls as the depth) and
  \<open>quadrants()\<close> has exactly the keys \<open>0\<close> to \<open>depth - 1\<close>. Level \<open>0\<close> is the list of the
  root box alone and every level \<open>d\<close> with \<open>0 < d < depth\<close> has \<open>4 ^ d\<close> boxes. With a depth
  of one there is no level \<open>1\<close>.
\<close>

theorem quadrants_level_sizes:
  assumes "1 \<le> dp" and "\<forall>b. length (cq b) = 4" and "nat dp \<le> fuel"
  shows "\<exists>self. QuadTree_init cq fuel bbox dp = Some (Inr self) \<and>
           dom (quadrants self) = {0..<dp} \<and>
           quadrants self 0 = Some [bbox] \<and>
           (\<forall>d. 0 < d \<and> d < dp \<longrightarrow>
                (\<exists>xs. quadrants self d = Some xs \<and> length xs = 4 ^ nat d)) \<and>
           (dp = 1 \<longrightarrow> quadrants self 1 = None)"
proof -
  from QuadTree_init_levels[OF assms(1,3), of cq bbox]
  obtain self where init: "QuadTree_init cq fuel bbox dp = Some (Inr self)"
    and lv: "\<And>k. quadrants self k =
        (if 0 \<le> k \<and> k < dp then Some (descendants cq (nat k) bbox) else None)"
    by blast
  have "dom (quadrants self) = {0..<dp}"
    by (auto simp: dom_def lv)
  moreover have "quadrants self 0 = Some [bbox]"
    using assms(1) by (simp add: lv)
  moreover have "\<exists>xs. quadrants self d = Some xs \<and> length xs = 4 ^ nat d"
    if "0 < d" "d < dp" for d
    using that by (simp add: lv length_descendants[OF assms(2)])
  moreover have "quadrants self 1 = None" if "dp = 1"
    using that by (simp add: lv)
  ultimately show ?thesis using init by blast
qed

theorem quadrants_level_sizes_witness:
  "(\<exists>self. QuadTree_init BoundingBox_compute_quads 3 (BoundingBox 2 9 1 7) 3 = Some (Inr self) \<and>
      dom (quadrants self) = {0..<3} \<and>
      quadrants self 0 = Some [BoundingBox 2 9 1 7] \<and>
      (\<exists>xs. quadrants self 1 = Some xs \<and> length xs = 4) \<and>
      (\<exists>xs. quadrants self 2 = Some xs \<and> length xs = 16)) \<and>
   (\<exists>self. QuadTree_init BoundingBox_compute_quads 1 (BoundingBox 2 9 1 7) 1 = Some (Inr self) \<and>
      dom (quadrants self) = {0..<1} \<and>
      quadrants self 0 = Some [BoundingBox 2 9 1 7] \<and>
      quadrants self 1 = None)"
proof -
  have four: "\<forall>b. length (BoundingBox_compute_quads b) = 4"
    by (simp add: length_BoundingBox_compute_quads)
  have three: "(1::int) \<le> 3" "nat 3 \<le> (3::nat)" by simp_all
  have one: "(1::int) \<le> 1" "nat 1 \<le> (1::nat)" by simp_all
  from quadrants_level_sizes[OF three(1) four three(2), of "BoundingBox 2 9 1 7"]
  obtain self where a: "QuadTree_init BoundingBox_compute_quads 3 (BoundingBox 2 9 1 7) 3 = Some (Inr self)"
      "dom (quadrants self) = {0..<3}" "quadrants self 0 = Some [BoundingBox 2 9 1 7]"
    and lv: "\<And>d. 0 < d \<and> d < 3 \<Longrightarrow> \<exists>xs. quadrants self d = Some xs \<and> length xs = 4 ^ nat d"
    by blast
  from lv[of 1] have l1: "\<exists>xs. quadrants self 1 = Some xs \<and> length xs = 4" by simp
  from lv[of 2] have l2: "\<exists>xs. quadrants self 2 = Some xs \<and> length xs = 16" by simp
  from quadrants_level_sizes[OF one(1) four one(2), of "BoundingBox 2 9 1 7"]
  obtain self1 where b: "QuadTree_init BoundingBox_compute_quads 1 (BoundingBox 2 9 1 7) 1 = Some (Inr self1)"
      "dom (quadrants self1) = {0..<1}" "quadrants self1 0 = Some [BoundingBox 2 9 1 7]"
      "quadrants self1 1 = None"
    by blast
  from a l1 l2 b show ?thesis by blast
qed

text \<open>
  Claim C2. For a depth of at least one, each level \<open>d\<close> with \<open>1 \<le> d < depth\<close> is the
  concatenation, over the boxes of level \<open>d - 1\<close> in their order, of the list the splitting
  method yields for each: the sub-boxes of one parent are contiguous and in the order of
  the split, and the groups follow the order of the parents.
\<close>

theorem levels_grouped_by_parent:
  assumes "1 \<le> dp" and "nat dp \<le> fuel"
  shows "\<exists>self. QuadTree_init cq fuel bbox dp = Some (Inr self) \<and>
           (\<forall>d. 1 \<le> d \<and> d < dp \<longrightarrow>
                (\<exists>ps. quadrants self (d - 1) = Some ps \<and>
                      quadrants self d = Some (concat (map cq ps))))"
proof -
  from QuadTree_init_levels[OF assms, of cq bbox]
  obtain self where init: "QuadTree_init cq fuel bbox dp = Some (Inr self)"
    and lv: "\<And>k. quadrants self k =
        (if 0 \<le> k \<and> k < dp then Some (descendants cq (nat k) bbox) else None)"
    by blast
  have "\<exists>ps. quadrants self (d - 1) = Some ps \<and> quadrants self d = Some (concat (map cq ps))"
    if "1 \<le> d" "d < dp" for d
  proof -
    have "nat d = Suc (nat (d - 1))" using that by simp
    then have "descendants cq (nat d) bbox = concat (map cq (descendants cq (nat (d - 1)) bbox))"
      by (simp only: descendants_Suc_level)
    then show ?thesis using that by (simp add: lv)
  qed
  with init show ?thesis by blast
qed

theorem levels_grouped_by_parent_witness:
  "\<exists>self. QuadTree_init BoundingBox_compute_quads 3 (BoundingBox 2 9 1 7) 3 = Some (Inr self) \<and>
     (\<exists>ps. quadrants self 1 = Some ps \<and>
           quadrants self 2 = Some (concat (map BoundingBox_compute_quads ps)))"
proof -
  have three: "(1::int) \<le> 3" "nat 3 \<le> (3::nat)" by simp_all
  from levels_grouped_by_parent[OF three, of BoundingBox_compute_quads "BoundingBox 2 9 1 7"]
  obtain self where a: "QuadTree_init BoundingBox_compute_quads 3 (BoundingBox 2 9 1 7) 3 = Some (Inr self)"
    and lv: "\<And>d. 1 \<le> d \<and> d < 3 \<Longrightarrow> \<exists>ps. quadrants self (d - 1) = Some ps \<and>
                      quadrants self d = Some (concat (map BoundingBox_compute_quads ps))"
    by blast
  from lv[of 2] have "\<exists>ps. quadrants self 1 = Some ps \<and>
      quadrants self 2 = Some (concat (map BoundingBox_compute_quads ps))" by simp
  with a show ?thesis by blast
qed

text \<open>
  Claim C3. If the areas of the sub-boxes of every box add up to the area of the box, then
  for a depth of at least one the areas of the boxes of every level \<open>0 \<le> d < depth\<close> add up
  to the area of the root box.
\<close>

theorem level_area_preserved:
  fixes area :: "'b \<Rightarrow> 'a::monoid_add"
  assumes "1 \<le> dp" and "nat dp \<le> fuel"
    and "\<forall>b. sum_list (map area (cq b)) = area b"
  shows "\<exists>self. QuadTree_init cq fuel bbox dp = Some (Inr self) \<and>
           (\<forall>d. 0 \<le> d \<and> d < dp \<longrightarrow>
                (\<exists>xs. quadrants self d = Some xs \<and> sum_list (map area xs) = area bbox))"
proof -
  from QuadTree_init_levels[OF assms(1,2), of cq bbox]
  obtain self where init: "QuadTree_init cq fuel bbox dp = Some (Inr self)"
    and lv: "\<And>k. quadrants self k =
        (if 0 \<le> k \<and> k < dp then Some (descendants cq (nat k) bbox) else None)"
    by blast
  have "\<exists>xs. quadrants self d = Some xs \<and> sum_list (map area xs) = area bbox"
    if "0 \<le> d" "d < dp" for d
    using that by (simp add: lv area_descendants[OF assms(3)])
  with init show ?thesis by blast
qed

theorem level_area_preserved_witness:
  "\<exists>self. QuadTree_init BoundingBox_compute_quads 3 (BoundingBox 2 9 1 7) 3 = Some (Inr self) \<and>
     (\<exists>xs. quadrants self 2 = Some xs \<and> sum_list (map BoundingBox_area xs) = 42)"
proof -
  have parts: "\<forall>b. sum_list (map BoundingBox_area (BoundingBox_compute_quads b)) = BoundingBox_area b"
    by (simp add: area_BoundingBox_compute_quads)
  have three: "(1::int) \<le> 3" "nat 3 \<le> (3::nat)" by simp_all
  from level_area_preserved[OF three parts, of "BoundingBox 2 9 1 7"]
  obtain self where a: "QuadTree_init BoundingBox_compute_quads 3 (BoundingBox 2 9 1 7) 3 = Some (Inr self)"
    and lv: "\<And>d. 0 \<le> d \<and> d < 3 \<Longrightarrow> \<exists>xs. quadrants self d = Some xs \<and>
                sum_list (map BoundingBox_area xs) = BoundingBox_area (BoundingBox 2 9 1 7)"
    by blast
  from lv[of 2] have "\<exists>xs. quadrants self 2 = Some xs \<and> sum_list (map BoundingBox_area xs) = 42"
    by simp
  with a show ?thesis by blast
qed

section \<open>Inputs outside the contract\<close>

text \<open>
  Claim C8, which says that a depth below one is rejected before any recursion, fails.
  The constructor has no check of the depth. It stores the root box and calls
  \<open>recurse\<close>, and what happens next depends on what the root box's split yields: with a
  split that yields no box, a depth of zero gives an instance with the root level alone.
\<close>

theorem init_depth_zero_returns:
  "QuadTree_init no_quads 1 0 0 = Some (Inr \<lparr>quads = [0 \<mapsto> [0]], depth = 0\<rparr>)"
  by (simp add: QuadTree_init_def no_quads_def)

text \<open>
  Claim C8 as amended. For a depth below one the constructor does not check the depth:
  it stores the root box at level \<open>0\<close> and calls \<open>recurse\<close> at depth \<open>1\<close>, which splits the
  root box. If the split yields at least one sub-box, the first append raises
  \<open>KeyError 1\<close>, since the dictionary has the key \<open>0\<close> only; if it yields none, the
  constructor returns an instance holding the root level alone.
\<close>

theorem init_depth_below_one:
  assumes "dp < 1"
  shows "QuadTree_init cq (Suc fuel) bbox dp =
           (if cq bbox = [] then Some (Inr \<lparr>quads = [0 \<mapsto> [bbox]], depth = dp\<rparr>)
            else Some (Inl (KeyError 1)))"
proof (cases "cq bbox")
  case Nil
  with assms show ?thesis by (simp add: QuadTree_init_def)
next
  case (Cons q qs)
  with assms show ?thesis by (simp add: QuadTree_init_def)
qed

theorem init_depth_below_one_witness:
  "(0::int) < 1 \<and>
   QuadTree_init BoundingBox_compute_quads (Suc 0) (BoundingBox 2 9 1 7) 0 = Some (Inl (KeyError 1))"
  using init_depth_below_one[of 0 BoundingBox_compute_quads 0 "BoundingBox 2 9 1 7"]
  by (simp add: Let_def)




section \<open>The arithmetic helpers\<close>

subsection \<open>Integers around \<open>2 ^ 54\<close> as doubles\<close>

text \<open>
  A double has 53 significant bits, so between \<open>2 ^ 53\<close> and \<open>2 ^ 54\<close> only the even
  integers are doubles and above \<open>2 ^ 54\<close> only the multiples of four. Both neighbours of
  \<open>2 ^ 54 = 4 ^ 27\<close> are converted to \<open>2 ^ 54\<close> itself.
\<close>

lemma PyLong_AsDouble_2_54: "PyLong_AsDouble (2 ^ 54) = Some (2 ^ 54)"
  by (simp add: PyLong_AsDouble_def bit_length.simps Let_def)

lemma PyLong_AsDouble_2_54_plus_1: "PyLong_AsDouble (2 ^ 54 + 1) = Some (2 ^ 54)"
  by (simp add: PyLong_AsDouble_def bit_length.simps Let_def)

lemma PyLong_AsDouble_2_54_minus_1: "PyLong_AsDouble (2 ^ 54 - 1) = Some (2 ^ 54)"
  by (simp add: PyLong_AsDouble_def bit_length.simps Let_def)

lemma math_log_2_54: "math_log log4 (2 ^ 54) = Inr (log4 (2 ^ 54))"
proof -
  have pos: "\<not> ((2::int) ^ 54 \<le> 0)" by simp
  show ?thesis
    unfolding math_log_def
    by (simp only: pos if_False PyLong_AsDouble_2_54 option.case)
qed

lemma math_log_2_54_plus_1: "math_log log4 (2 ^ 54 + 1) = Inr (log4 (2 ^ 54))"
proof -
  have pos: "\<not> ((2::int) ^ 54 + 1 \<le> 0)" by simp
  show ?thesis
    unfolding math_log_def
    by (simp only: pos if_False PyLong_AsDouble_2_54_plus_1 option.case)
qed

lemma math_log_2_54_minus_1: "math_log log4 (2 ^ 54 - 1) = Inr (log4 (2 ^ 54))"
proof -
  have pos: "\<not> ((2::int) ^ 54 - 1 \<le> 0)" by simp
  show ?thesis
    unfolding math_log_def
    by (simp only: pos if_False PyLong_AsDouble_2_54_minus_1 option.case)
qed

lemma exact_log4_2_54: "exact_log4 (2 ^ 54) = 27"
proof -
  have pow: "real_of_int (2 ^ 54) = 4 ^ 27" by simp
  have "log 4 ((4::real) ^ 27) = real 27"
    by (rule log_pow_cancel) simp_all
  then have "log 4 ((4::real) ^ 27) = 27"
    by (simp only: of_nat_numeral)
  with pow show ?thesis unfolding exact_log4_def by (simp only:)
qed

lemma pow4_27: "pow4 27 = PyInt (2 ^ 54)"
  by (simp add: pow4_def)

lemma ceiling_27: "\<lceil>27::real\<rceil> = 27"
  by simp

lemma floor_27: "\<lfloor>27::real\<rfloor> = 27"
  by simp

subsection \<open>The documented examples\<close>

text \<open>
  The docstrings give \<open>at_least(900) = 1024\<close>, \<open>at_most(900) = 256\<close>, \<open>level(1) = 0\<close> and
  \<open>level(5) = 2\<close>. Small integers are doubles, so these values are returned whenever the
  computed logarithm lies between the right integers.
\<close>

lemma PyLong_AsDouble_900: "PyLong_AsDouble 900 = Some 900"
  by (simp add: PyLong_AsDouble_def bit_length.simps Let_def)

lemma at_least_900:
  assumes "4 < log4 900" and "log4 900 \<le> 5"
  shows "at_least log4 900 = Inr (PyInt 1024)"
proof -
  have "\<lceil>log4 900\<rceil> = 5" using assms by linarith
  then show ?thesis
    by (simp add: at_least_def math_log_def PyLong_AsDouble_900 pow4_def)
qed

lemma at_most_900:
  assumes "4 \<le> log4 900" and "log4 900 < 5"
  shows "at_most log4 900 = Inr (PyInt 256)"
proof -
  have "\<lfloor>log4 900\<rfloor> = 4" using assms by linarith
  then show ?thesis
    by (simp add: at_most_def math_log_def PyLong_AsDouble_900 pow4_def)
qed

lemma level_900:
  assumes "4 < log4 900" and "log4 900 \<le> 5"
  shows "level log4 900 = Inr 5"
proof -
  have "\<lceil>log4 900\<rceil> = 5" using assms by linarith
  then show ?thesis
    by (simp add: level_def math_log_def PyLong_AsDouble_900)
qed

subsection \<open>Exact powers of four\<close>

text \<open>
  A power of two below \<open>2 ^ 1024\<close> is a double, so the conversion leaves every power of
  four up to \<open>4 ^ 511\<close> as it is and the logarithm is taken of the power itself.
\<close>

lemma bit_length_pow2: "bit_length (2 ^ m) = Suc m"
proof (induction m)
  case 0
  show ?case by (simp add: bit_length.simps)
next
  case (Suc m)
  have "bit_length (2 ^ Suc m) = Suc (bit_length (2 ^ Suc m div 2))"
    by (subst bit_length.simps) simp
  with Suc show ?case by simp
qed

lemma PyLong_AsDouble_pow2:
  assumes "m < 1024"
  shows "PyLong_AsDouble (2 ^ m) = Some (2 ^ m)"
proof (cases "Suc m \<le> 53")
  case True
  then show ?thesis by (simp add: PyLong_AsDouble_def bit_length_pow2)
next
  case False
  then have m: "m = 52 + (m - 52)" by simp
  have split: "(2::int) ^ m = 2 ^ 52 * 2 ^ (m - 52)"
    by (subst m) (simp only: power_add)
  have sh: "Suc m - 53 = m - 52" by simp
  have q: "(2::int) ^ m div 2 ^ (m - 52) = 2 ^ 52"
    by (subst split) simp
  have r: "(2::int) ^ m mod 2 ^ (m - 52) = 0"
    by (subst split) simp
  have even52: "\<not> odd ((2::int) ^ 52)" by simp
  have "(2::int) ^ m < 2 ^ 1024"
    using assms by (intro power_strict_increasing) simp_all
  then have small: "\<not> ((2::int) ^ 1024 \<le> 2 ^ m)" by (simp only: not_le)
  have whole: "(2::int) ^ 52 * 2 ^ (m - 52) = 2 ^ m" using split by simp
  show ?thesis
    unfolding PyLong_AsDouble_def bit_length_pow2 Let_def sh q r
    using False small whole by (simp only: if_False even52 mult_zero_right
        not_less zero_less_power zero_less_numeral less_imp_le simp_thms) simp
qed

lemma PyLong_AsDouble_pow4:
  assumes "k < 512"
  shows "PyLong_AsDouble (4 ^ k) = Some (4 ^ k)"
proof -
  have "(4::int) ^ k = 2 ^ (2 * k)" by (simp add: power_mult)
  moreover have "2 * k < 1024" using assms by simp
  ultimately show ?thesis using PyLong_AsDouble_pow2[of "2 * k"] by simp
qed

lemma math_log_pow4:
  assumes "k < 512"
  shows "math_log log4 (4 ^ k) = Inr (log4 (4 ^ k))"
  by (simp add: math_log_def PyLong_AsDouble_pow4[OF assms] not_le)

lemma exact_log4_pow4: "exact_log4 (4 ^ k) = real k"
  by (simp add: exact_log4_def)

text \<open>
  When the computed logarithm of \<open>4 ^ k\<close> is exactly \<open>k\<close>, the three helpers return the
  right values; the values the specification lists for \<open>16\<close> and \<open>17\<close> are of this kind.
\<close>

lemma helpers_exact_at_power_of_four:
  assumes "k < 512" and "log4 (4 ^ k) = real k"
  shows "level log4 (4 ^ k) = Inr (int k)"
    and "at_least log4 (4 ^ k) = Inr (PyInt (4 ^ k))"
    and "at_most log4 (4 ^ k) = Inr (PyInt (4 ^ k))"
  using assms(2)
  by (simp_all add: level_def at_least_def at_most_def math_log_pow4[OF assms(1)] pow4_def)

lemma helpers_at_16:
  assumes "log4 16 = 2"
  shows "level log4 16 = Inr 2" and "at_least log4 16 = Inr (PyInt 16)"
    and "at_most log4 16 = Inr (PyInt 16)"
  using helpers_exact_at_power_of_four[of 2 log4] assms by simp_all

lemma level_17:
  assumes "2 < log4 17" and "log4 17 \<le> 3"
  shows "level log4 17 = Inr 3"
proof -
  have "\<lceil>log4 17\<rceil> = 3" using assms by linarith
  then show ?thesis
    by (simp add: level_def math_log_def PyLong_AsDouble_def bit_length.simps Let_def)
qed

text \<open>
  A computed logarithm below \<open>k\<close> at \<open>4 ^ k\<close> makes \<open>at_most\<close> return the power of four
  below.
\<close>

lemma at_most_low_at_power_of_four:
  assumes "k < 512" and "real k - 1 \<le> log4 (4 ^ k)" and "log4 (4 ^ k) < real k" and "0 < k"
  shows "at_most log4 (4 ^ k) = Inr (PyInt (4 ^ (k - 1)))"
proof -
  have "\<lfloor>log4 (4 ^ k)\<rfloor> = int k - 1" using assms(2,3) by linarith
  moreover have "nat (int k - 1) = k - 1" by simp
  ultimately show ?thesis
    using assms(4) by (simp add: at_most_def math_log_pow4[OF assms(1)] pow4_def)
qed

text \<open>
  Claim C4 says that the helpers compute the logarithm so that no floating-point error
  puts them off by one at an exact power of four. The helpers apply \<open>math.ceil\<close> and
  \<open>math.floor\<close> to the computed logarithm as it is. At every power \<open>4 ^ k\<close> up to
  \<open>4 ^ 511\<close>, a computed logarithm that exceeds \<open>k\<close>, by however little, makes \<open>level\<close>
  return \<open>k + 1\<close> and \<open>at_least\<close> return \<open>4 ^ (k + 1)\<close>.
\<close>

theorem helpers_off_by_one_at_power_of_four:
  assumes "k < 512" and "real k < log4 (4 ^ k)" and "log4 (4 ^ k) \<le> real k + 1"
  shows "level log4 (4 ^ k) = Inr (int k + 1) \<and>
         at_least log4 (4 ^ k) = Inr (PyInt (4 ^ (k + 1)))"
proof -
  have "\<lceil>log4 (4 ^ k)\<rceil> = int k + 1" using assms(2,3) by linarith
  moreover have "nat (int k + 1) = k + 1" by simp
  ultimately show ?thesis
    by (simp add: level_def at_least_def math_log_pow4[OF assms(1)] pow4_def)
qed

theorem helpers_off_by_one_at_power_of_four_witness:
  "(29::nat) < 512 \<and> real 29 < high_log4 (4 ^ 29) \<and> high_log4 (4 ^ 29) \<le> real 29 + 1 \<and>
   level high_log4 (4 ^ 29) = Inr 30 \<and>
   at_least high_log4 (4 ^ 29) = Inr (PyInt (4 ^ 30))"
proof -
  have v: "high_log4 (4 ^ 29) = 29 + 1 / 2 ^ 48"
    unfolding high_log4_def exact_log4_pow4 by simp
  have h: "(29::nat) < 512" "real 29 < high_log4 (4 ^ 29)" "high_log4 (4 ^ 29) \<le> real 29 + 1"
    unfolding v by simp_all
  from helpers_off_by_one_at_power_of_four[of 29 high_log4] h show ?thesis by simp
qed

subsection \<open>Beyond the precision of a double\<close>

text \<open>
  Claim C5 says that \<open>at_least(n)\<close> is the smallest power of four that is at least \<open>n\<close>,
  for every \<open>n \<ge> 1\<close>. The smallest power of four at least \<open>2 ^ 54\<close> is \<open>4 ^ 27 = 2 ^ 54\<close>
  and the smallest at least \<open>2 ^ 54 + 1\<close> is \<open>4 ^ 28\<close>. The helper returns the same value
  for both, whatever the logarithm computes, because both are the same double; with a
  logarithm free of rounding error it returns \<open>2 ^ 54\<close> for \<open>2 ^ 54 + 1\<close>, which is less
  than the requested size.
\<close>

theorem at_least_beyond_double_precision:
  "at_least log4 (2 ^ 54 + 1) = at_least log4 (2 ^ 54) \<and>
   at_least exact_log4 (2 ^ 54 + 1) = Inr (PyInt (2 ^ 54))"
  unfolding at_least_def math_log_2_54 math_log_2_54_plus_1 exact_log4_2_54
  by (simp only: sum.case ceiling_27 pow4_27)

text \<open>
  Claim C6 says that \<open>at_most(n)\<close> is the largest power of four that is at most \<open>n\<close>, for
  every \<open>n \<ge> 1\<close>. The largest power of four at most \<open>2 ^ 54 - 1\<close> is \<open>4 ^ 26\<close> and the
  largest at most \<open>2 ^ 54\<close> is \<open>4 ^ 27\<close>. The helper returns the same value for both,
  whatever the logarithm computes; with a logarithm free of rounding error it returns
  \<open>2 ^ 54\<close> for \<open>2 ^ 54 - 1\<close>, which is more than the requested size.
\<close>

theorem at_most_beyond_double_precision:
  "at_most log4 (2 ^ 54 - 1) = at_most log4 (2 ^ 54) \<and>
   at_most exact_log4 (2 ^ 54 - 1) = Inr (PyInt (2 ^ 54))"
  unfolding at_most_def math_log_2_54 math_log_2_54_minus_1 exact_log4_2_54
  by (simp only: sum.case floor_27 pow4_27)

text \<open>
  Claim C7 says that \<open>4 ^ level(n) \<ge> n\<close> for every \<open>n \<ge> 1\<close> and \<open>4 ^ (level(n) - 1) < n\<close>
  for every \<open>n > 1\<close>. For \<open>2 ^ 54 = 4 ^ 27\<close> this asks for a level of at most \<open>27\<close> and for
  \<open>2 ^ 54 + 1\<close> for a level of at least \<open>28\<close>. The helper returns the same level for
  both, whatever the logarithm computes; with a logarithm free of rounding error it
  returns \<open>27\<close> for \<open>2 ^ 54 + 1\<close>, and \<open>4 ^ 27\<close> cells are fewer than that.
\<close>

theorem level_beyond_double_precision:
  "level log4 (2 ^ 54 + 1) = level log4 (2 ^ 54) \<and>
   level exact_log4 (2 ^ 54 + 1) = Inr 27"
  unfolding level_def math_log_2_54 math_log_2_54_plus_1 exact_log4_2_54
  by (simp only: sum.case ceiling_27)

subsection \<open>The helpers agree with each other\<close>

lemma exact_log4_900: "4 < exact_log4 900" "exact_log4 900 \<le> 5"
proof -
  have four: "log 4 ((4::real) ^ 4) = real 4" by (rule log_pow_cancel) simp_all
  have five: "log 4 ((4::real) ^ 5) = real 5" by (rule log_pow_cancel) simp_all
  have "log 4 ((4::real) ^ 4) < log 4 900" by (subst log_less_cancel_iff) simp_all
  with four show "4 < exact_log4 900" by (simp add: exact_log4_def)
  have "log 4 900 \<le> log 4 ((4::real) ^ 5)" by (subst log_le_cancel_iff) simp_all
  with five show "exact_log4 900 \<le> 5" by (simp add: exact_log4_def)
qed

text \<open>
  Claim C10. For every integer \<open>n \<ge> 1\<close> the helper \<open>level\<close> returns an integer \<open>l\<close> and
  \<open>at_least(n)\<close> is \<open>4 ** l\<close>, whatever value the floating-point logarithm has: the integer
  \<open>4 ^ l\<close> when \<open>l\<close> is not negative, and otherwise the float that Python's \<open>4 ** l\<close> is,
  \<open>1 / 4 ^ -l\<close> down to the smallest positive double and zero below.
\<close>

theorem at_least_is_four_to_the_level:
  assumes "1 \<le> n"
  shows "\<exists>l. level log4 n = Inr l \<and>
           at_least log4 n =
             Inr (if 0 \<le> l then PyInt (4 ^ nat l)
                  else PyFloat (if - 537 \<le> l then 1 / 4 ^ nat (- l) else 0))"
  using assms by (simp add: level_def at_least_def math_log_def pow4_def)

theorem at_least_is_four_to_the_level_witness:
  "(1::int) \<le> 900 \<and> level exact_log4 900 = Inr 5 \<and> at_least exact_log4 900 = Inr (PyInt 1024)"
proof -
  have lv: "level exact_log4 900 = Inr 5"
    using exact_log4_900 by (rule level_900)
  have one: "(1::int) \<le> 900" by simp
  from at_least_is_four_to_the_level[OF one, of exact_log4]
  obtain l where l: "level exact_log4 900 = Inr l"
    and al: "at_least exact_log4 900 =
             Inr (if 0 \<le> l then PyInt (4 ^ nat l)
                  else PyFloat (if - 537 \<le> l then 1 / 4 ^ nat (- l) else 0))"
    by blast
  from l lv have "l = 5" by simp
  with al have "at_least exact_log4 900 = Inr (PyInt 1024)" by simp
  with lv one show ?thesis by simp
qed

end
